theory Spec2Isabelle
  imports Main
begin

section \<open>JavaScript values\<close>

text \<open>
  The values the client handles: what \<^verbatim>\<open>JSON.parse\<close> and a cross-window message can
  deliver, \<^verbatim>\<open>undefined\<close>, and \<open>JHost\<close>, a built-in object or function of the
  JavaScript host (named by the path that reaches it), which a property read can reach
  through a prototype. Numbers are the integers; fractions, NaN and the infinities of
  IEEE doubles are not represented. An object is the list of its own properties, the
  first binding of a key being the property.
\<close>

datatype jsval =
    JUndefined
  | JNull
  | JBool bool
  | JNum int
  | JStr string
  | JArr "jsval list"
  | JObj "(string \<times> jsval) list"
  | JHost string

text \<open>
  What the source throws or rejects with: a \<^verbatim>\<open>TypeError\<close> of the runtime, the
  \<^verbatim>\<open>new Error(message)\<close> of \<^verbatim>\<open>request\<close>, and a failed \<^verbatim>\<open>fetch(..).then(r => r.json())\<close>
  (transport failure or a body that is not JSON).
\<close>

datatype error =
    TypeError
  | JsError string
  | FetchFailed string

text \<open>
  The parts of the host the source relies on and this theory does not implement:
  \<open>h_member v k\<close> is what reading \<^verbatim>\<open>v[k]\<close> gives when \<open>k\<close> is not an own property
  carried by the data (prototype members, \<^verbatim>\<open>length\<close> and indices of strings and
  arrays); \<open>h_url_ok v\<close> says whether \<^verbatim>\<open>new URL(v)\<close> accepts \<open>v\<close>; \<open>h_to_number\<close> is
  the numeric conversion (\<open>None\<close> for NaN) of strings, arrays and objects;
  \<open>h_origin\<close> is \<^verbatim>\<open>location.origin\<close>.
\<close>

record host =
  h_member :: "jsval \<Rightarrow> string \<Rightarrow> jsval"
  h_url_ok :: "jsval \<Rightarrow> bool"
  h_to_number :: "jsval \<Rightarrow> int option"
  h_origin :: string

text \<open>\<^verbatim>\<open>!v\<close> is \<open>\<not> truthy v\<close>.\<close>

fun truthy :: "jsval \<Rightarrow> bool" where
  "truthy JUndefined = False"
| "truthy JNull = False"
| "truthy (JBool b) = b"
| "truthy (JNum n) = (n \<noteq> 0)"
| "truthy (JStr s) = (s \<noteq> [])"
| "truthy (JArr xs) = True"
| "truthy (JObj kvs) = True"
| "truthy (JHost n) = True"

text \<open>\<^verbatim>\<open>typeof v\<close>; a \<open>JHost\<close> value stands for a built-in function here.\<close>

fun js_typeof :: "jsval \<Rightarrow> string" where
  "js_typeof JUndefined = ''undefined''"
| "js_typeof JNull = ''object''"
| "js_typeof (JBool b) = ''boolean''"
| "js_typeof (JNum n) = ''number''"
| "js_typeof (JStr s) = ''string''"
| "js_typeof (JArr xs) = ''object''"
| "js_typeof (JObj kvs) = ''object''"
| "js_typeof (JHost n) = ''function''"

text \<open>
  The property read \<^verbatim>\<open>v[k]\<close> (and \<^verbatim>\<open>v.k\<close>): a \<^verbatim>\<open>TypeError\<close> on \<^verbatim>\<open>null\<close> and
  \<^verbatim>\<open>undefined\<close>, the own property of an object when it has one, the host's answer
  otherwise.
\<close>

fun js_get :: "host \<Rightarrow> jsval \<Rightarrow> string \<Rightarrow> error + jsval" where
  "js_get h JUndefined k = Inl TypeError"
| "js_get h JNull k = Inl TypeError"
| "js_get h (JObj kvs) k =
     (case map_of kvs k of Some v \<Rightarrow> Inr v | None \<Rightarrow> Inr (h_member h (JObj kvs) k))"
| "js_get h v k = Inr (h_member h v k)"

text \<open>\<^verbatim>\<open>s.split(d)\<close> for a one-character separator: never the empty list.\<close>

fun split_on :: "char \<Rightarrow> string \<Rightarrow> string list" where
  "split_on d [] = [[]]"
| "split_on d (c # cs) =
     (if c = d then [] # split_on d cs
      else (case split_on d cs of
              [] \<Rightarrow> [[c]]
            | s # ss \<Rightarrow> (c # s) # ss))"

section \<open>The client and its requests\<close>

text \<open>The fields of \<^verbatim>\<open>HypothesisAPIClient\<close>.\<close>

record client =
  serviceUrl :: string
  token :: jsval
  links :: jsval

text \<open>
  A call of \<^verbatim>\<open>fetch\<close>. The address is either a string the source builds, or the
  \<^verbatim>\<open>URL\<close> object made from a value with query parameters appended to it in order
  (its serialisation is not computed). A header value is a text, or the text
  \<^verbatim>\<open>Bearer\<close> followed by the string conversion of a value. A body is a value passed
  as it is, or the pairs appended to a \<^verbatim>\<open>URLSearchParams\<close>, each value as it was
  passed (\<^verbatim>\<open>append\<close> turns it into a string: \<^verbatim>\<open>undefined\<close> becomes the text
  \<^verbatim>\<open>undefined\<close>). An option the source does not pass is \<open>JUndefined\<close>.
\<close>

datatype url = Plain string | Built jsval "(string \<times> jsval) list"

datatype header_value = Lit string | Bearer jsval

datatype body = Raw jsval | Form "(string \<times> jsval) list"

record fetch_call =
  fc_url :: url
  fc_method :: jsval
  fc_headers :: "(string \<times> header_value) list"
  fc_body :: body

text \<open>
  The world outside the client: the state of the network, the \<^verbatim>\<open>fetch\<close> calls
  issued so far and the windows opened so far, both oldest first. The network
  answers a call with the parsed JSON body or a failure, and moves to a new state.
\<close>

record 'n world =
  nst :: 'n
  fetched :: "fetch_call list"
  opened :: "string list"

type_synonym 'n network = "'n \<Rightarrow> fetch_call \<Rightarrow> (error + jsval) \<times> 'n"

text \<open>\<^verbatim>\<open>fetch(..).then(r => r.json())\<close>.\<close>

definition do_fetch :: "'n network \<Rightarrow> fetch_call \<Rightarrow> 'n world \<Rightarrow> (error + jsval) \<times> 'n world" where
  "do_fetch net fc w =
     (case net (nst w) fc of
        (r, n') \<Rightarrow> (r, w\<lparr>nst := n', fetched := fetched w @ [fc]\<rparr>))"

text \<open>\<^verbatim>\<open>logout()\<close>.\<close>

definition logout :: "client \<Rightarrow> client" where
  "logout c = c\<lparr>token := JNull, links := JNull\<rparr>"

text \<open>
  The loop of \<^verbatim>\<open>request\<close> over the segments of the method: \<open>m\<close> is the whole
  method string, for the message.
\<close>

fun walk :: "host \<Rightarrow> string \<Rightarrow> jsval \<Rightarrow> string list \<Rightarrow> error + jsval" where
  "walk h m meta [] = Inr meta"
| "walk h m meta (segment # rest) =
     (case js_get h meta segment of
        Inl e \<Rightarrow> Inl e
      | Inr v \<Rightarrow>
          if \<not> truthy v then Inl (JsError (''Unknown method '' @ m))
          else walk h m v rest)"

text \<open>
  \<^verbatim>\<open>request(method, data, params)\<close> up to its call of \<^verbatim>\<open>fetch\<close>: the error thrown,
  or the call it issues. \<open>params\<close> lists the entries of the parameter object in the
  order of \<^verbatim>\<open>Object.keys\<close>.
\<close>

definition request :: "host \<Rightarrow> client \<Rightarrow> string \<Rightarrow> jsval \<Rightarrow> (string \<times> jsval) list \<Rightarrow> error + fetch_call" where
  "request h c method data params =
     (case walk h method (links c) (split_on CHR ''.'' method) of
        Inl e \<Rightarrow> Inl e
      | Inr meta \<Rightarrow>
          (let headers = (if truthy (token c) then [(''Authorization'', Bearer (token c))] else [])
           in case js_get h meta ''url'' of
                Inl e \<Rightarrow> Inl e
              | Inr u \<Rightarrow>
                  if \<not> h_url_ok h u then Inl TypeError
                  else (case js_get h meta ''method'' of
                          Inl e \<Rightarrow> Inl e
                        | Inr v \<Rightarrow>
                            Inr \<lparr>fc_url = Built u params, fc_method = v,
                                 fc_headers = headers, fc_body = Raw data\<rparr>)))"

text \<open>\<^verbatim>\<open>request\<close> with its effect: nothing is fetched when it throws.\<close>

definition request_w :: "host \<Rightarrow> 'n network \<Rightarrow> client \<Rightarrow> string \<Rightarrow> jsval \<Rightarrow> (string \<times> jsval) list
    \<Rightarrow> 'n world \<Rightarrow> (error + jsval) \<times> 'n world" where
  "request_w h net c method data params w =
     (case request h c method data params of
        Inl e \<Rightarrow> (Inl e, w)
      | Inr fc \<Rightarrow> do_fetch net fc w)"

section \<open>Login\<close>

text \<open>
  The message listener of \<^verbatim>\<open>login\<close> and the promise it resolves: whether the
  listener is still registered on the window, and the value \<^verbatim>\<open>authResponse\<close> was
  resolved with, if it was.
\<close>

record listener =
  registered :: bool
  resolved :: "jsval option"

text \<open>
  \<^verbatim>\<open>authRespListener(event)\<close>, on \<^verbatim>\<open>event.data\<close>: the state after it returns, or the
  error it throws. Resolving a promise a second time does nothing.
\<close>

definition authRespListener :: "host \<Rightarrow> jsval \<Rightarrow> listener \<Rightarrow> error + listener" where
  "authRespListener h data st =
     (if js_typeof data \<noteq> ''object'' then Inr st
      else (case js_get h data ''type'' of
              Inl e \<Rightarrow> Inl e
            | Inr t \<Rightarrow>
                Inr ((if t = JStr ''authorization_response''
                      then (if resolved st = None then st\<lparr>resolved := Some data\<rparr> else st)
                      else st)\<lparr>registered := False\<rparr>)))"

text \<open>
  The window hands a message to the listener while it is registered; an error the
  listener throws is reported by the host and leaves the state as it was.
\<close>

definition dispatch :: "host \<Rightarrow> listener \<Rightarrow> jsval \<Rightarrow> listener" where
  "dispatch h st data =
     (if registered st
      then (case authRespListener h data st of Inl e \<Rightarrow> st | Inr st' \<Rightarrow> st')
      else st)"

text \<open>
  The messages that arrive after \<^verbatim>\<open>addEventListener\<close>, in order, each given by its
  \<^verbatim>\<open>data\<close>.
\<close>

definition deliver :: "host \<Rightarrow> jsval list \<Rightarrow> listener" where
  "deliver h msgs = foldl (dispatch h) \<lparr>registered = True, resolved = None\<rparr> msgs"

text \<open>
  The address of the popup; the geometry string of \<^verbatim>\<open>window.open\<close> is left out.
\<close>

definition authUrl :: "host \<Rightarrow> string \<Rightarrow> string \<Rightarrow> string" where
  "authUrl h service clientId =
     service @ ''/oauth/authorize?client_id='' @ clientId
       @ ''&response_type=code&response_mode=web_message&origin='' @ h_origin h"

definition token_call :: "string \<Rightarrow> jsval \<Rightarrow> fetch_call" where
  "token_call service code =
     \<lparr>fc_url = Plain (service @ ''/api/token''),
      fc_method = JStr ''POST'',
      fc_headers = [(''Content-Type'', Lit ''application/x-www-form-urlencoded'')],
      fc_body = Form [(''grant_type'', JStr ''urn:ietf:params:oauth:grant-type:jwt-bearer''),
                      (''assertion'', code)]\<rparr>"

definition discovery_call :: "string \<Rightarrow> fetch_call" where
  "discovery_call service =
     \<lparr>fc_url = Plain (service @ ''/api/''), fc_method = JUndefined,
      fc_headers = [], fc_body = Raw JUndefined\<rparr>"

text \<open>
  \<^verbatim>\<open>login\<close> from its start to the end of its last \<^verbatim>\<open>await\<close>; the fields of the client
  are not written in this part. \<open>None\<close>: \<^verbatim>\<open>authResponse\<close> is never resolved by the
  messages, and \<^verbatim>\<open>login\<close> stays pending. Otherwise the error \<^verbatim>\<open>login\<close> rejects with,
  or \<^verbatim>\<open>access_token\<close> and the body of the discovery response.
\<close>

definition login_exchange :: "host \<Rightarrow> 'n network \<Rightarrow> string \<Rightarrow> string \<Rightarrow> jsval list \<Rightarrow> 'n world
    \<Rightarrow> ((error + jsval \<times> jsval) \<times> 'n world) option" where
  "login_exchange h net service clientId msgs w =
     (let w1 = w\<lparr>opened := opened w @ [authUrl h service clientId]\<rparr>
      in case resolved (deliver h msgs) of
           None \<Rightarrow> None
         | Some authResponse \<Rightarrow>
            (case js_get h authResponse ''code'' of
               Inl e \<Rightarrow> Some (Inl e, w1)
             | Inr code \<Rightarrow>
                (case js_get h authResponse ''state'' of
                   Inl e \<Rightarrow> Some (Inl e, w1)
                 | Inr state \<Rightarrow>
                    (case do_fetch net (token_call service code) w1 of
                       (Inl e, w2) \<Rightarrow> Some (Inl e, w2)
                     | (Inr tok, w2) \<Rightarrow>
                        (case js_get h tok ''access_token'' of
                           Inl e \<Rightarrow> Some (Inl e, w2)
                         | Inr access_token \<Rightarrow>
                            (case do_fetch net (discovery_call service) w2 of
                               (Inl e, w3) \<Rightarrow> Some (Inl e, w3)
                             | (Inr disc, w3) \<Rightarrow> Some (Inr (access_token, disc), w3)))))))"

text \<open>
  \<^verbatim>\<open>login(clientId)\<close>: the value it resolves to or the error it rejects with, the
  client and the world afterwards. Its last statements run without suspension:
  \<^verbatim>\<open>this.token = access_token\<close>, then \<^verbatim>\<open>this.links = links.links\<close>, whose right-hand
  side is read after the first assignment.
\<close>

definition login :: "host \<Rightarrow> 'n network \<Rightarrow> client \<Rightarrow> string \<Rightarrow> jsval list \<Rightarrow> 'n world
    \<Rightarrow> ((error + jsval) \<times> client \<times> 'n world) option" where
  "login h net c clientId msgs w =
     (case login_exchange h net (serviceUrl c) clientId msgs w of
        None \<Rightarrow> None
      | Some (Inl e, w') \<Rightarrow> Some (Inl e, c, w')
      | Some (Inr (access_token, disc), w') \<Rightarrow>
          (let c1 = c\<lparr>token := access_token\<rparr>
           in case js_get h disc ''links'' of
                Inl e \<Rightarrow> Some (Inl e, c1, w')
              | Inr l \<Rightarrow> Some (Inr access_token, c1\<lparr>links := l\<rparr>, w')))"

section \<open>Fetching all annotations\<close>

text \<open>
  \<^verbatim>\<open>...v\<close> in an argument list: the elements of an array, the characters of a string,
  a \<^verbatim>\<open>TypeError\<close> for anything else (not iterable).
\<close>

fun spread :: "jsval \<Rightarrow> error + jsval list" where
  "spread (JArr xs) = Inr xs"
| "spread (JStr s) = Inr (map (\<lambda>c. JStr [c]) s)"
| "spread v = Inl TypeError"

text \<open>\<^verbatim>\<open>anns.length < total\<close> for a length \<open>n\<close>.\<close>

fun len_lt :: "host \<Rightarrow> nat \<Rightarrow> jsval \<Rightarrow> bool" where
  "len_lt h n (JNum t) = (int n < t)"
| "len_lt h n JUndefined = False"
| "len_lt h n JNull = (int n < 0)"
| "len_lt h n (JBool b) = (int n < (if b then 1 else 0))"
| "len_lt h n v = (case h_to_number h v of None \<Rightarrow> False | Some t \<Rightarrow> int n < t)"

text \<open>
  The \<^verbatim>\<open>while\<close> loop of \<^verbatim>\<open>fetchAll\<close> on \<^verbatim>\<open>anns\<close> and \<^verbatim>\<open>total\<close> (here \<open>tot\<close>). \<open>None\<close>: the loop runs
  for ever. Otherwise the array returned or the error \<^verbatim>\<open>fetchAll\<close> rejects with, and
  the world afterwards.
\<close>

partial_function (option) fetchAll_loop :: "host \<Rightarrow> 'n network \<Rightarrow> client \<Rightarrow> jsval list \<Rightarrow> jsval
    \<Rightarrow> 'n world \<Rightarrow> ((error + jsval list) \<times> 'n world) option" where
  "fetchAll_loop h net c anns tot w =
     (if tot = JNull \<or> len_lt h (length anns) tot
      then (case request_w h net c ''search'' JNull
                   [(''offset'', JNum (int (length anns))), (''limit'', JNum 1000)] w of
              (Inl e, w') \<Rightarrow> Some (Inl e, w')
            | (Inr searchResult, w') \<Rightarrow>
               (case js_get h searchResult ''total'' of
                  Inl e \<Rightarrow> Some (Inl e, w')
                | Inr tot' \<Rightarrow>
                   (case js_get h searchResult ''rows'' of
                      Inl e \<Rightarrow> Some (Inl e, w')
                    | Inr rows \<Rightarrow>
                       (case spread rows of
                          Inl e \<Rightarrow> Some (Inl e, w')
                        | Inr xs \<Rightarrow> fetchAll_loop h net c (anns @ xs) tot' w'))))
      else Some (Inr anns, w))"

declare fetchAll_loop.simps [code]

definition fetchAll :: "host \<Rightarrow> 'n network \<Rightarrow> client \<Rightarrow> 'n world
    \<Rightarrow> ((error + jsval list) \<times> 'n world) option" where
  "fetchAll h net c w = fetchAll_loop h net c [] JNull w"

section \<open>Notions of the specification\<close>

text \<open>
  Following the segments of a method through the own properties of the route table:
  the node reached, if every segment is a key of the object reached before it.
\<close>

fun follow :: "jsval \<Rightarrow> string list \<Rightarrow> jsval option" where
  "follow v [] = Some v"
| "follow (JObj kvs) (k # ks) =
     (case map_of kvs k of None \<Rightarrow> None | Some v \<Rightarrow> follow v ks)"
| "follow v (k # ks) = None"

text \<open>
  The parameters \<^verbatim>\<open>fetchAll\<close> passes to \<^verbatim>\<open>request\<close> when it holds \<open>n\<close> rows, and the
  call \<^verbatim>\<open>request\<close> then issues for a \<^verbatim>\<open>search\<close> leaf with address \<open>u\<close> and verb
  \<open>verb\<close>.
\<close>

definition search_params :: "nat \<Rightarrow> (string \<times> jsval) list" where
  "search_params n = [(''offset'', JNum (int n)), (''limit'', JNum 1000)]"

definition search_call :: "client \<Rightarrow> jsval \<Rightarrow> jsval \<Rightarrow> nat \<Rightarrow> fetch_call" where
  "search_call c u verb n =
     \<lparr>fc_url = Built u (search_params n), fc_method = verb,
      fc_headers = (if truthy (token c) then [(''Authorization'', Bearer (token c))] else []),
      fc_body = Raw JNull\<rparr>"

text \<open>
  A search response that reports the total \<open>t\<close> and carries the rows \<open>xs\<close>; a network
  that answers the call \<open>fc\<close> with such a response in every state.
\<close>

definition is_page :: "host \<Rightarrow> jsval \<Rightarrow> int \<Rightarrow> jsval list \<Rightarrow> bool" where
  "is_page h sr t xs =
     (js_get h sr ''total'' = Inr (JNum t) \<and> js_get h sr ''rows'' = Inr (JArr xs))"

definition answers_page :: "host \<Rightarrow> 'n network \<Rightarrow> fetch_call \<Rightarrow> int \<Rightarrow> jsval list \<Rightarrow> bool" where
  "answers_page h net fc t xs =
     (\<forall>ns. case fst (net ns fc) of Inl e \<Rightarrow> False | Inr sr \<Rightarrow> is_page h sr t xs)"

text \<open>
  One round of the loop of \<^verbatim>\<open>fetchAll\<close> at \<open>n\<close> accumulated rows. A server behaviour
  is productive below the bound \<open>B\<close> when every round either fails or answers with a
  total of at most \<open>B\<close> and, if \<open>n\<close> is below that total, with at least one row. It is
  stuck at \<open>n\<close> when every round at \<open>n\<close> answers with no rows and a total above \<open>n\<close>.
\<close>

definition search_round :: "host \<Rightarrow> 'n network \<Rightarrow> client \<Rightarrow> nat \<Rightarrow> 'n world
    \<Rightarrow> (error + jsval) \<times> 'n world" where
  "search_round h net c n w =
     request_w h net c ''search'' JNull (search_params n) w"

definition productive_page :: "host \<Rightarrow> int \<Rightarrow> nat \<Rightarrow> jsval \<Rightarrow> bool" where
  "productive_page h B n sr =
     (case js_get h sr ''total'' of
        Inr (JNum t) \<Rightarrow>
          (case js_get h sr ''rows'' of
             Inr (JArr xs) \<Rightarrow> t \<le> B \<and> (int n < t \<longrightarrow> xs \<noteq> [])
           | _ \<Rightarrow> False)
      | _ \<Rightarrow> False)"

definition productive :: "host \<Rightarrow> 'n network \<Rightarrow> client \<Rightarrow> int \<Rightarrow> bool" where
  "productive h net c B =
     (\<forall>n w. case fst (search_round h net c n w) of
               Inl e \<Rightarrow> True
             | Inr sr \<Rightarrow> productive_page h B n sr)"

definition stuck_at :: "host \<Rightarrow> 'n network \<Rightarrow> client \<Rightarrow> nat \<Rightarrow> bool" where
  "stuck_at h net c n =
     (\<forall>w. case fst (search_round h net c n w) of
             Inl e \<Rightarrow> False
           | Inr sr \<Rightarrow> (\<exists>t. is_page h sr t [] \<and> int n < t))"

section \<open>Concrete hosts, clients and servers\<close>

text \<open>
  A fragment of an ECMAScript host in a browser, for evaluating the model at concrete
  inputs: a plain object inherits the members of \<^verbatim>\<open>Object.prototype\<close>, a string and an
  array have their \<^verbatim>\<open>length\<close>, and no other member is represented (reading one gives
  \<^verbatim>\<open>undefined\<close>, which is what the host gives for the member names this program
  reads). \<^verbatim>\<open>new URL\<close> accepts the addresses below \<^verbatim>\<open>https://hypothes.is/\<close> spelled
  with lower-case letters and slashes, and is not asked about any other string here;
  it rejects \<^verbatim>\<open>undefined\<close>, \<^verbatim>\<open>null\<close>, numbers and booleans. The numeric conversion of
  strings, arrays and objects is not represented.
\<close>

definition object_prototype_names :: "string list" where
  "object_prototype_names =
     [''constructor'', ''hasOwnProperty'', ''isPrototypeOf'', ''propertyIsEnumerable'',
      ''toLocaleString'', ''toString'', ''valueOf'', ''__proto__'',
      ''__defineGetter__'', ''__defineSetter__'', ''__lookupGetter__'', ''__lookupSetter__'']"

fun es_member :: "jsval \<Rightarrow> string \<Rightarrow> jsval" where
  "es_member (JObj kvs) k =
     (if k \<in> set object_prototype_names then JHost (''Object.prototype.'' @ k) else JUndefined)"
| "es_member (JStr s) k = (if k = ''length'' then JNum (int (length s)) else JUndefined)"
| "es_member (JArr xs) k = (if k = ''length'' then JNum (int (length xs)) else JUndefined)"
| "es_member v k = JUndefined"

fun es_url_ok :: "jsval \<Rightarrow> bool" where
  "es_url_ok (JStr s) =
     (take 20 s = ''https://hypothes.is/''
      \<and> list_all (\<lambda>c. c \<in> set ''abcdefghijklmnopqrstuvwxyz/'') (drop 20 s))"
| "es_url_ok v = False"

definition es_host :: host where
  "es_host =
     \<lparr>h_member = es_member, h_url_ok = es_url_ok, h_to_number = (\<lambda>v. None),
      h_origin = ''http://localhost:4000''\<rparr>"

text \<open>The constructor of the client, and a client after a login.\<close>

definition new_client :: "string \<Rightarrow> client" where
  "new_client service = \<lparr>serviceUrl = service, token = JNull, links = JNull\<rparr>"

definition sample_links :: jsval where
  "sample_links =
     JObj [(''search'', JObj [(''method'', JStr ''GET''),
                              (''url'', JStr ''https://hypothes.is/api/search'')]),
           (''profile'', JObj [(''read'', JObj [(''method'', JStr ''GET''),
                                                (''url'', JStr ''https://hypothes.is/api/profile'')])])]"

definition sample_client :: client where
  "sample_client =
     \<lparr>serviceUrl = ''https://hypothes.is'', token = JStr ''tok'', links = sample_links\<rparr>"

definition empty_world :: "unit world" where
  "empty_world = \<lparr>nst = (), fetched = [], opened = []\<rparr>"

text \<open>
  A service for \<^verbatim>\<open>login\<close>: it answers the token request (the one sent with
  \<^verbatim>\<open>POST\<close>) with \<open>tok\<close> and every other request with \<open>disc\<close>. An authorization
  message with a code and a state, and one without a code.
\<close>

definition canned_net :: "error + jsval \<Rightarrow> error + jsval \<Rightarrow> unit network" where
  "canned_net tok disc = (\<lambda>n fc. (if fc_method fc = JStr ''POST'' then tok else disc, ()))"

definition auth_message :: jsval where
  "auth_message =
     JObj [(''type'', JStr ''authorization_response''), (''code'', JStr ''abc''),
           (''state'', JStr ''xyz'')]"

definition codeless_message :: jsval where
  "codeless_message =
     JObj [(''type'', JStr ''authorization_response''), (''state'', JStr ''xyz'')]"

text \<open>
  A search endpoint: it answers a call with the total and the rows that \<open>f\<close> gives
  for the \<^verbatim>\<open>offset\<close> parameter of the call. Three of them: one that serves \<open>data\<close> in
  pages of at most \<open>page\<close> rows, one whose total stays two above the offset while it
  serves one row a call, and one that reports one row and serves none. \<open>numbered n\<close>
  is a list of \<open>n\<close> different rows.
\<close>

definition search_server :: "(nat \<Rightarrow> int \<times> jsval list) \<Rightarrow> unit network" where
  "search_server f =
     (\<lambda>n fc.
        (case fc_url fc of
           Plain s \<Rightarrow> Inl (FetchFailed ''not found'')
         | Built u q \<Rightarrow>
            (case map_of q ''offset'' of
               Some (JNum off) \<Rightarrow>
                 Inr (JObj [(''total'', JNum (fst (f (nat off)))),
                            (''rows'', JArr (snd (f (nat off))))])
             | _ \<Rightarrow> Inl (FetchFailed ''bad request'')), ()))"

definition paged_search :: "jsval list \<Rightarrow> nat \<Rightarrow> unit network" where
  "paged_search data page =
     search_server (\<lambda>off. (int (length data), take page (drop off data)))"

definition numbered :: "nat \<Rightarrow> jsval list" where
  "numbered n = map (\<lambda>i. JNum (int i)) [0..<n]"

definition growing_search :: "unit network" where
  "growing_search = search_server (\<lambda>off. (int off + 2, [JNum (int off)]))"

definition stuck_search :: "unit network" where
  "stuck_search = search_server (\<lambda>off. (1, []))"

lemma split_on_not_Nil: "split_on d s \<noteq> []"
  by (induction s) (auto split: list.splits)

lemma walk_null: "ps \<noteq> [] \<Longrightarrow> walk h m JNull ps = Inl TypeError"
  by (cases ps) simp_all

section \<open>Properties of logout\<close>

text \<open>
  C10. \<^verbatim>\<open>logout()\<close> clears the token and the route table of any client, whatever its
  state, and a second \<^verbatim>\<open>logout()\<close> changes nothing more. It reads and writes the client
  only: it takes no network and no world, so it contacts no server, and it leaves
  the service address alone.
\<close>

theorem logout_idempotent:
  "logout (logout c) = logout c
   \<and> token (logout c) = JNull \<and> links (logout c) = JNull
   \<and> serviceUrl (logout c) = serviceUrl c"
  by (simp add: logout_def)

text \<open>
  C1, as the source has it. After \<^verbatim>\<open>logout()\<close> the token and the route table are
  \<^verbatim>\<open>null\<close>, and \<^verbatim>\<open>request(m)\<close> fails for every method string \<open>m\<close>, before any call of
  \<^verbatim>\<open>fetch\<close>: with the \<^verbatim>\<open>TypeError\<close> of reading a property of \<^verbatim>\<open>null\<close>, since the
  table is \<^verbatim>\<open>null\<close> and not an empty table.
\<close>

theorem request_after_logout:
  "token (logout c) = JNull \<and> links (logout c) = JNull
   \<and> request h (logout c) m d ps = Inl TypeError
   \<and> request_w h net (logout c) m d ps w = (Inl TypeError, w)"
  by (simp add: request_w_def request_def logout_def walk_null split_on_not_Nil)

text \<open>
  C1, as the specification has it, fails: after \<^verbatim>\<open>logout()\<close> the request of
  \<^verbatim>\<open>search\<close> does not fail with the error \<^verbatim>\<open>Unknown method search\<close>.
\<close>

theorem request_after_logout_not_unknown_method:
  "request es_host (logout sample_client) ''search'' JNull [] = Inl TypeError
   \<and> request es_host (logout sample_client) ''search'' JNull []
       \<noteq> Inl (JsError ''Unknown method search'')"
  by (simp add: request_def logout_def sample_client_def)

section \<open>Properties of method resolution\<close>

text \<open>
  C5 at a failing input. The route table of \<open>sample_client\<close> has the keys
  \<^verbatim>\<open>search\<close> and \<^verbatim>\<open>profile\<close> only, so the segment \<^verbatim>\<open>constructor\<close> is absent from it.
  The lookup \<^verbatim>\<open>meta[segment]\<close> finds the member that every object inherits, which is
  truthy, so no \<^verbatim>\<open>Unknown method\<close> error is thrown; the failure comes later, from
  \<^verbatim>\<open>new URL(undefined)\<close>, as a \<^verbatim>\<open>TypeError\<close>. Nothing is fetched.
\<close>

theorem request_inherited_segment:
  "request es_host sample_client ''constructor'' JNull [] = Inl TypeError
   \<and> request_w es_host net sample_client ''constructor'' JNull [] w = (Inl TypeError, w)"
  by (simp add: request_w_def request_def sample_client_def sample_links_def es_host_def
      object_prototype_names_def)

lemma follow_Cons_truthy: "follow v (k # ks) = Some r \<Longrightarrow> truthy v"
  by (cases v) simp_all

lemma walk_follow:
  "follow v ps = Some r \<Longrightarrow> ps = [] \<or> truthy r \<Longrightarrow> walk h m v ps = Inr r"
proof (induction v ps rule: follow.induct)
  case (1 v)
  then show ?case by simp
next
  case (2 kvs k ks)
  from "2.prems"(1) obtain v' where look: "map_of kvs k = Some v'" and rest: "follow v' ks = Some r"
    by (auto split: option.splits)
  have "truthy v'"
  proof (cases ks)
    case Nil
    with rest "2.prems"(2) show ?thesis by simp
  next
    case (Cons k' ks')
    with rest show ?thesis by (auto dest: follow_Cons_truthy)
  qed
  moreover have "walk h m v' ks = Inr r"
    using "2.IH" [OF look rest] "2.prems"(2) by blast
  ultimately show ?case using look by simp
qed simp_all

lemma request_follow:
  assumes "follow (links c) (split_on CHR ''.'' m) = Some (JObj leaf)"
    and "map_of leaf ''method'' = Some verb"
    and "map_of leaf ''url'' = Some u"
    and "h_url_ok h u"
  shows "request h c m d ps =
     Inr \<lparr>fc_url = Built u ps, fc_method = verb,
          fc_headers = (if truthy (token c) then [(''Authorization'', Bearer (token c))] else []),
          fc_body = Raw d\<rparr>"
proof -
  have "walk h m (links c) (split_on CHR ''.'' m) = Inr (JObj leaf)"
    using walk_follow [OF assms(1)] by simp
  then show ?thesis using assms(2-4)
    by (simp add: request_def Let_def)
qed

text \<open>
  C6. Let every segment of the method \<open>m\<close> be a key of the node of the route table
  reached before it, the node reached last being a leaf with a \<^verbatim>\<open>method\<close> and a
  \<^verbatim>\<open>url\<close> that \<^verbatim>\<open>new URL\<close> accepts. Then the loop of \<^verbatim>\<open>request\<close> ends on exactly that
  leaf, and \<^verbatim>\<open>request\<close> issues one call of \<^verbatim>\<open>fetch\<close>: to the leaf's address with the
  caller's parameters appended in order, with the leaf's verb, the caller's body,
  and an \<^verbatim>\<open>Authorization: Bearer\<close> header exactly when the token is truthy.
\<close>

theorem request_resolves_leaf:
  assumes "follow (links c) (split_on CHR ''.'' m) = Some (JObj leaf)"
    and "map_of leaf ''method'' = Some verb"
    and "map_of leaf ''url'' = Some u"
    and "h_url_ok h u"
  shows "walk h m (links c) (split_on CHR ''.'' m) = Inr (JObj leaf)
    \<and> (let call = \<lparr>fc_url = Built u ps, fc_method = verb,
                    fc_headers = (if truthy (token c)
                                  then [(''Authorization'', Bearer (token c))] else []),
                    fc_body = Raw d\<rparr>
       in request h c m d ps = Inr call
          \<and> request_w h net c m d ps w = do_fetch net call w)"
proof -
  have "walk h m (links c) (split_on CHR ''.'' m) = Inr (JObj leaf)"
    using walk_follow [OF assms(1)] by simp
  then show ?thesis using assms(2-4)
    by (simp add: request_w_def request_def Let_def)
qed

theorem request_resolves_leaf_witness:
  "follow (links sample_client) (split_on CHR ''.'' ''profile.read'')
     = Some (JObj [(''method'', JStr ''GET''), (''url'', JStr ''https://hypothes.is/api/profile'')])
   \<and> h_url_ok es_host (JStr ''https://hypothes.is/api/profile'')
   \<and> request es_host sample_client ''profile.read'' JNull [(''a'', JStr ''b'')] =
        Inr \<lparr>fc_url = Built (JStr ''https://hypothes.is/api/profile'') [(''a'', JStr ''b'')],
             fc_method = JStr ''GET'',
             fc_headers = [(''Authorization'', Bearer (JStr ''tok''))],
             fc_body = Raw JNull\<rparr>"
proof -
  have f: "follow (links sample_client) (split_on CHR ''.'' ''profile.read'')
     = Some (JObj [(''method'', JStr ''GET''), (''url'', JStr ''https://hypothes.is/api/profile'')])"
    by (simp add: sample_client_def sample_links_def)
  have u: "h_url_ok es_host (JStr ''https://hypothes.is/api/profile'')"
    by (simp add: es_host_def)
  show ?thesis
    using f u request_resolves_leaf [where h = es_host and c = sample_client
        and m = "''profile.read''" and verb = "JStr ''GET''" and d = JNull
        and ps = "[(''a'', JStr ''b'')]" and net = stuck_search and w = empty_world, OF f _ _ u]
    by (simp add: sample_client_def Let_def)
qed

section \<open>Properties of the message listener\<close>

text \<open>
  C2 at a failing input. A message that is an object of another type, followed by
  the authorization response: the first message removes the listener without
  resolving the promise, the second one is never seen, and \<^verbatim>\<open>login\<close> stays pending
  whatever the network does.
\<close>

theorem listener_removed_by_other_message:
  "deliver es_host [JObj [(''type'', JStr ''other'')], auth_message]
     = \<lparr>registered = False, resolved = None\<rparr>
   \<and> login es_host net c clientId [JObj [(''type'', JStr ''other'')], auth_message] w = None"
  by (simp add: login_def login_exchange_def deliver_def dispatch_def authRespListener_def
      auth_message_def)

section \<open>Properties of login\<close>

lemma js_get_total: "js_get h d k = Inr v \<Longrightarrow> \<exists>v'. js_get h d k' = Inr v'"
  by (cases d) (auto split: option.splits)

lemma login_exchange_resolved:
  assumes "resolved (deliver h msgs) = Some d" and "js_get h d ''code'' = Inr code"
  shows "login_exchange h net service cid msgs w =
    (case do_fetch net (token_call service code) (w\<lparr>opened := opened w @ [authUrl h service cid]\<rparr>) of
       (Inl e, w2) \<Rightarrow> Some (Inl e, w2)
     | (Inr tok, w2) \<Rightarrow>
        (case js_get h tok ''access_token'' of
           Inl e \<Rightarrow> Some (Inl e, w2)
         | Inr access_token \<Rightarrow>
            (case do_fetch net (discovery_call service) w2 of
               (Inl e, w3) \<Rightarrow> Some (Inl e, w3)
             | (Inr disc, w3) \<Rightarrow> Some (Inr (access_token, disc), w3))))"
proof -
  obtain s where "js_get h d ''state'' = Inr s"
    using js_get_total [OF assms(2)] by blast
  with assms show ?thesis
    by (simp add: login_exchange_def Let_def)
qed

lemma deliver_auth_message: "resolved (deliver es_host [auth_message]) = Some auth_message"
  by (simp add: deliver_def dispatch_def authRespListener_def auth_message_def)

lemma code_auth_message: "js_get es_host auth_message ''code'' = Inr (JStr ''abc'')"
  by (simp add: auth_message_def)

lemma deliver_codeless: "resolved (deliver es_host [codeless_message]) = Some codeless_message"
  by (simp add: deliver_def dispatch_def authRespListener_def codeless_message_def)

lemma code_codeless: "js_get es_host codeless_message ''code'' = Inr JUndefined"
  by (simp add: codeless_message_def es_host_def object_prototype_names_def)

text \<open>
  C3, as the source has it. Let the messages resolve the authorization promise with
  a response that carries a code. \<^verbatim>\<open>login\<close> writes the client in its last step only:
  if the token fetch fails, or if it succeeds and the discovery fetch fails,
  \<^verbatim>\<open>login\<close> rejects with that failure and the client is exactly as it was before the
  call (a client without token and route table still has neither); if both fetches
  succeed and the discovery document can be read for its \<^verbatim>\<open>links\<close> member, \<^verbatim>\<open>login\<close>
  resolves to the access token and stores the token and that member together.
  Conversely, \<^verbatim>\<open>login\<close> resolves only when both fetches succeeded, having issued
  exactly these two calls. That the stored route table is populated is not part of
  the statement: it is whatever the \<^verbatim>\<open>links\<close> member of the discovery document is.
\<close>

theorem login_all_or_nothing:
  assumes "resolved (deliver h msgs) = Some d" and "js_get h d ''code'' = Inr code"
  shows
   "(net (nst w) (token_call (serviceUrl c) code) = (Inl e, na) \<longrightarrow>
       login h net c cid msgs w =
         Some (Inl e, c,
               \<lparr>nst = na, fetched = fetched w @ [token_call (serviceUrl c) code],
                opened = opened w @ [authUrl h (serviceUrl c) cid]\<rparr>))
    \<and> (net (nst w) (token_call (serviceUrl c) code) = (Inr tok, na)
         \<and> js_get h tok ''access_token'' = Inr t
         \<and> net na (discovery_call (serviceUrl c)) = (Inl e, nb) \<longrightarrow>
       login h net c cid msgs w =
         Some (Inl e, c,
               \<lparr>nst = nb,
                fetched = fetched w @ [token_call (serviceUrl c) code, discovery_call (serviceUrl c)],
                opened = opened w @ [authUrl h (serviceUrl c) cid]\<rparr>))
    \<and> (net (nst w) (token_call (serviceUrl c) code) = (Inr tok, na)
         \<and> js_get h tok ''access_token'' = Inr t
         \<and> net na (discovery_call (serviceUrl c)) = (Inr disc, nb)
         \<and> js_get h disc ''links'' = Inr l \<longrightarrow>
       login h net c cid msgs w =
         Some (Inr t, c\<lparr>token := t, links := l\<rparr>,
               \<lparr>nst = nb,
                fetched = fetched w @ [token_call (serviceUrl c) code, discovery_call (serviceUrl c)],
                opened = opened w @ [authUrl h (serviceUrl c) cid]\<rparr>))
    \<and> (login h net c cid msgs w = Some (Inr t, c', w') \<longrightarrow>
         (\<exists>tok' ma disc' mb.
            net (nst w) (token_call (serviceUrl c) code) = (Inr tok', ma)
            \<and> net ma (discovery_call (serviceUrl c)) = (Inr disc', mb))
         \<and> fetched w' = fetched w @ [token_call (serviceUrl c) code, discovery_call (serviceUrl c)])"
  unfolding login_def login_exchange_resolved [OF assms]
  by (auto simp add: do_fetch_def Let_def split: prod.splits sum.splits)

theorem login_all_or_nothing_witness:
  "resolved (deliver es_host [auth_message]) = Some auth_message
   \<and> js_get es_host auth_message ''code'' = Inr (JStr ''abc'')
   \<and> login es_host (canned_net (Inl (FetchFailed ''down'')) (Inr (JObj [(''links'', sample_links)])))
        (new_client ''https://hypothes.is'') ''cid'' [auth_message] empty_world
      = Some (Inl (FetchFailed ''down''), new_client ''https://hypothes.is'',
              \<lparr>nst = (), fetched = [token_call ''https://hypothes.is'' (JStr ''abc'')],
               opened = [authUrl es_host ''https://hypothes.is'' ''cid'']\<rparr>)
   \<and> login es_host (canned_net (Inr (JObj [(''access_token'', JStr ''tok'')])) (Inl (FetchFailed ''down'')))
        (new_client ''https://hypothes.is'') ''cid'' [auth_message] empty_world
      = Some (Inl (FetchFailed ''down''), new_client ''https://hypothes.is'',
              \<lparr>nst = (), fetched = [token_call ''https://hypothes.is'' (JStr ''abc''),
                                     discovery_call ''https://hypothes.is''],
               opened = [authUrl es_host ''https://hypothes.is'' ''cid'']\<rparr>)
   \<and> login es_host (canned_net (Inr (JObj [(''access_token'', JStr ''tok'')]))
                               (Inr (JObj [(''links'', sample_links)])))
        (new_client ''https://hypothes.is'') ''cid'' [auth_message] empty_world
      = Some (Inr (JStr ''tok''), sample_client,
              \<lparr>nst = (), fetched = [token_call ''https://hypothes.is'' (JStr ''abc''),
                                     discovery_call ''https://hypothes.is''],
               opened = [authUrl es_host ''https://hypothes.is'' ''cid'']\<rparr>)"
proof -
  note inst = login_all_or_nothing [OF deliver_auth_message code_auth_message]
  have a: "login es_host (canned_net (Inl (FetchFailed ''down'')) (Inr (JObj [(''links'', sample_links)])))
        (new_client ''https://hypothes.is'') ''cid'' [auth_message] empty_world
      = Some (Inl (FetchFailed ''down''), new_client ''https://hypothes.is'',
              \<lparr>nst = (), fetched = [token_call ''https://hypothes.is'' (JStr ''abc'')],
               opened = [authUrl es_host ''https://hypothes.is'' ''cid'']\<rparr>)"
    using inst [where net = "canned_net (Inl (FetchFailed ''down'')) (Inr (JObj [(''links'', sample_links)]))"
        and w = empty_world and c = "new_client ''https://hypothes.is''" and e = "FetchFailed ''down''"
        and na = "()" and cid = "''cid''"]
    by (simp add: canned_net_def token_call_def new_client_def empty_world_def)
  have b: "login es_host (canned_net (Inr (JObj [(''access_token'', JStr ''tok'')])) (Inl (FetchFailed ''down'')))
        (new_client ''https://hypothes.is'') ''cid'' [auth_message] empty_world
      = Some (Inl (FetchFailed ''down''), new_client ''https://hypothes.is'',
              \<lparr>nst = (), fetched = [token_call ''https://hypothes.is'' (JStr ''abc''),
                                     discovery_call ''https://hypothes.is''],
               opened = [authUrl es_host ''https://hypothes.is'' ''cid'']\<rparr>)"
    using inst [where net = "canned_net (Inr (JObj [(''access_token'', JStr ''tok'')])) (Inl (FetchFailed ''down''))"
        and w = empty_world and c = "new_client ''https://hypothes.is''" and e = "FetchFailed ''down''"
        and na = "()" and nb = "()" and cid = "''cid''"
        and tok = "JObj [(''access_token'', JStr ''tok'')]" and t = "JStr ''tok''"]
    by (simp add: canned_net_def token_call_def discovery_call_def new_client_def empty_world_def)
  have c: "login es_host (canned_net (Inr (JObj [(''access_token'', JStr ''tok'')]))
                               (Inr (JObj [(''links'', sample_links)])))
        (new_client ''https://hypothes.is'') ''cid'' [auth_message] empty_world
      = Some (Inr (JStr ''tok''), sample_client,
              \<lparr>nst = (), fetched = [token_call ''https://hypothes.is'' (JStr ''abc''),
                                     discovery_call ''https://hypothes.is''],
               opened = [authUrl es_host ''https://hypothes.is'' ''cid'']\<rparr>)"
    using inst [where net = "canned_net (Inr (JObj [(''access_token'', JStr ''tok'')]))
                               (Inr (JObj [(''links'', sample_links)]))"
        and w = empty_world and c = "new_client ''https://hypothes.is''"
        and na = "()" and nb = "()" and cid = "''cid''"
        and tok = "JObj [(''access_token'', JStr ''tok'')]" and t = "JStr ''tok''"
        and disc = "JObj [(''links'', sample_links)]" and l = sample_links]
    by (simp add: canned_net_def token_call_def discovery_call_def new_client_def empty_world_def
        sample_client_def)
  show ?thesis using deliver_auth_message code_auth_message a b c by simp
qed

text \<open>
  C3, as the specification has it, fails: both fetches succeed and the discovery
  document has no \<^verbatim>\<open>links\<close> member; \<^verbatim>\<open>login\<close> resolves, and the client holds a token
  next to a route table that is \<^verbatim>\<open>undefined\<close>.
\<close>

theorem login_without_links:
  "login es_host (canned_net (Inr (JObj [(''access_token'', JStr ''tok'')])) (Inr (JObj [])))
        (new_client ''https://hypothes.is'') ''cid'' [auth_message] empty_world
   = Some (Inr (JStr ''tok''),
           \<lparr>serviceUrl = ''https://hypothes.is'', token = JStr ''tok'', links = JUndefined\<rparr>,
           \<lparr>nst = (), fetched = [token_call ''https://hypothes.is'' (JStr ''abc''),
                                  discovery_call ''https://hypothes.is''],
            opened = [authUrl es_host ''https://hypothes.is'' ''cid'']\<rparr>)"
  by (simp add: login_def login_exchange_def deliver_def dispatch_def authRespListener_def
      auth_message_def canned_net_def do_fetch_def token_call_def discovery_call_def
      new_client_def empty_world_def es_host_def object_prototype_names_def)

text \<open>
  C4, as the source has it. For an authorization response whose code reads as
  \<^verbatim>\<open>undefined\<close>, \<^verbatim>\<open>login\<close> sends the token request with the assertion made from
  \<^verbatim>\<open>undefined\<close>. The token exchange fails when that fetch fails, and then \<^verbatim>\<open>login\<close>
  rejects with the failure, the client unchanged; when the token endpoint answers
  with any JSON body other than \<^verbatim>\<open>null\<close>, the step does not fail and \<^verbatim>\<open>login\<close> goes
  on to the discovery fetch.
\<close>

theorem login_missing_code:
  assumes "resolved (deliver h msgs) = Some d" and "js_get h d ''code'' = Inr JUndefined"
  shows
   "(net (nst w) (token_call (serviceUrl c) JUndefined) = (Inl e, na) \<longrightarrow>
       login h net c cid msgs w =
         Some (Inl e, c,
               \<lparr>nst = na, fetched = fetched w @ [token_call (serviceUrl c) JUndefined],
                opened = opened w @ [authUrl h (serviceUrl c) cid]\<rparr>))
    \<and> (net (nst w) (token_call (serviceUrl c) JUndefined) = (Inr tok, na)
         \<and> js_get h tok ''access_token'' = Inr t \<longrightarrow>
       (\<exists>r c' w'. login h net c cid msgs w = Some (r, c', w')
          \<and> fetched w' = fetched w @ [token_call (serviceUrl c) JUndefined,
                                        discovery_call (serviceUrl c)]))"
  unfolding login_def login_exchange_resolved [OF assms]
  by (auto simp add: do_fetch_def Let_def split: prod.splits sum.splits)

theorem login_missing_code_witness:
  "resolved (deliver es_host [codeless_message]) = Some codeless_message
   \<and> js_get es_host codeless_message ''code'' = Inr JUndefined
   \<and> login es_host (canned_net (Inl (FetchFailed ''down'')) (Inl (FetchFailed ''down'')))
        (new_client ''https://hypothes.is'') ''cid'' [codeless_message] empty_world
      = Some (Inl (FetchFailed ''down''), new_client ''https://hypothes.is'',
              \<lparr>nst = (), fetched = [token_call ''https://hypothes.is'' JUndefined],
               opened = [authUrl es_host ''https://hypothes.is'' ''cid'']\<rparr>)
   \<and> (\<exists>r c' w'. login es_host (canned_net (Inr (JObj [(''error'', JStr ''invalid_grant'')]))
                                         (Inr (JObj [(''links'', sample_links)])))
                    (new_client ''https://hypothes.is'') ''cid'' [codeless_message] empty_world
                  = Some (r, c', w')
        \<and> fetched w' = [token_call ''https://hypothes.is'' JUndefined,
                         discovery_call ''https://hypothes.is''])"
proof -
  note inst = login_missing_code [OF deliver_codeless code_codeless]
  have a: "login es_host (canned_net (Inl (FetchFailed ''down'')) (Inl (FetchFailed ''down'')))
        (new_client ''https://hypothes.is'') ''cid'' [codeless_message] empty_world
      = Some (Inl (FetchFailed ''down''), new_client ''https://hypothes.is'',
              \<lparr>nst = (), fetched = [token_call ''https://hypothes.is'' JUndefined],
               opened = [authUrl es_host ''https://hypothes.is'' ''cid'']\<rparr>)"
    using inst [where net = "canned_net (Inl (FetchFailed ''down'')) (Inl (FetchFailed ''down''))"
        and w = empty_world and c = "new_client ''https://hypothes.is''" and e = "FetchFailed ''down''"
        and na = "()" and cid = "''cid''"]
    by (simp add: canned_net_def token_call_def new_client_def empty_world_def)
  have b: "\<exists>r c' w'. login es_host (canned_net (Inr (JObj [(''error'', JStr ''invalid_grant'')]))
                                         (Inr (JObj [(''links'', sample_links)])))
                    (new_client ''https://hypothes.is'') ''cid'' [codeless_message] empty_world
                  = Some (r, c', w')
        \<and> fetched w' = [token_call ''https://hypothes.is'' JUndefined,
                         discovery_call ''https://hypothes.is'']"
    using inst [where net = "canned_net (Inr (JObj [(''error'', JStr ''invalid_grant'')]))
                                         (Inr (JObj [(''links'', sample_links)]))"
        and w = empty_world and c = "new_client ''https://hypothes.is''"
        and na = "()" and cid = "''cid''"
        and tok = "JObj [(''error'', JStr ''invalid_grant'')]" and t = JUndefined]
    by (simp add: canned_net_def token_call_def new_client_def empty_world_def es_host_def
        object_prototype_names_def)
  show ?thesis using deliver_codeless code_codeless a b by simp
qed

text \<open>
  C4, as the specification has it, fails: the authorization response has no code,
  the token endpoint grants a token for the assertion it was sent, and \<^verbatim>\<open>login\<close>
  resolves to that token, having sent the assertion made from \<^verbatim>\<open>undefined\<close>.
\<close>

theorem login_missing_code_succeeds:
  "login es_host (canned_net (Inr (JObj [(''access_token'', JStr ''tok'')]))
                          (Inr (JObj [(''links'', sample_links)])))
        (new_client ''https://hypothes.is'') ''cid'' [codeless_message] empty_world
   = Some (Inr (JStr ''tok''), sample_client,
           \<lparr>nst = (), fetched = [token_call ''https://hypothes.is'' JUndefined,
                                  discovery_call ''https://hypothes.is''],
            opened = [authUrl es_host ''https://hypothes.is'' ''cid'']\<rparr>)"
  by (simp add: login_def login_exchange_def deliver_def dispatch_def authRespListener_def
      codeless_message_def canned_net_def do_fetch_def token_call_def discovery_call_def
      new_client_def empty_world_def es_host_def object_prototype_names_def sample_client_def)

section \<open>Properties of fetchAll\<close>

lemma fetchAll_loop_stop:
  "tot \<noteq> JNull \<Longrightarrow> \<not> len_lt h (length anns) tot \<Longrightarrow>
   fetchAll_loop h net c anns tot w = Some (Inr anns, w)"
  by (subst fetchAll_loop.simps) simp

lemma fetchAll_loop_error:
  "tot = JNull \<or> len_lt h (length anns) tot \<Longrightarrow>
   search_round h net c (length anns) w = (Inl e, w') \<Longrightarrow>
   fetchAll_loop h net c anns tot w = Some (Inl e, w')"
  by (subst fetchAll_loop.simps) (simp add: search_round_def search_params_def)

lemma fetchAll_loop_step:
  "tot = JNull \<or> len_lt h (length anns) tot \<Longrightarrow>
   search_round h net c (length anns) w = (Inr sr, w') \<Longrightarrow>
   is_page h sr t xs \<Longrightarrow>
   fetchAll_loop h net c anns tot w = fetchAll_loop h net c (anns @ xs) (JNum t) w'"
  by (subst fetchAll_loop.simps) (simp add: search_round_def search_params_def is_page_def)

lemma search_round_route:
  assumes "follow (links c) [''search''] = Some (JObj leaf)"
    and "map_of leaf ''method'' = Some verb"
    and "map_of leaf ''url'' = Some u"
    and "h_url_ok h u"
  shows "search_round h net c n w = do_fetch net (search_call c u verb n) w"
proof -
  have "follow (links c) (split_on CHR ''.'' ''search'') = Some (JObj leaf)"
    using assms(1) by simp
  from request_follow [OF this assms(2-4)]
  show ?thesis
    by (simp add: search_round_def request_w_def search_call_def)
qed

lemma do_fetch_answers:
  assumes "answers_page h net fc t xs"
  shows "\<exists>sr ns'. do_fetch net fc w = (Inr sr, w\<lparr>nst := ns', fetched := fetched w @ [fc]\<rparr>)
           \<and> is_page h sr t xs"
proof -
  obtain r ns' where n: "net (nst w) fc = (r, ns')" by (cases "net (nst w) fc")
  from assms have "case fst (net (nst w) fc) of Inl e \<Rightarrow> False | Inr sr \<Rightarrow> is_page h sr t xs"
    by (simp add: answers_page_def)
  with n obtain sr where "r = Inr sr" "is_page h sr t xs"
    by (cases r) auto
  with n show ?thesis by (auto simp: do_fetch_def)
qed

lemma sample_route:
  "follow (links sample_client) [''search'']
     = Some (JObj [(''method'', JStr ''GET''), (''url'', JStr ''https://hypothes.is/api/search'')])"
  by (simp add: sample_client_def sample_links_def)

lemma sample_url_ok: "h_url_ok es_host (JStr ''https://hypothes.is/api/search'')"
  by (simp add: es_host_def)

lemma search_server_round:
  assumes "follow (links c) [''search''] = Some (JObj leaf)"
    and "map_of leaf ''method'' = Some verb"
    and "map_of leaf ''url'' = Some u"
    and "h_url_ok h u"
  shows "search_round h (search_server f) c n w =
     (Inr (JObj [(''total'', JNum (fst (f n))), (''rows'', JArr (snd (f n)))]),
      w\<lparr>nst := (), fetched := fetched w @ [search_call c u verb n]\<rparr>)"
  by (simp add: search_round_route [OF assms] do_fetch_def search_server_def search_call_def
      search_params_def)

lemmas sample_round =
  search_server_round [OF sample_route _ _ sample_url_ok, of "JStr ''GET''", simplified]

lemma paged_answers:
  "answers_page h (paged_search data page) (search_call c u verb n)
     (int (length data)) (take page (drop n data))"
  by (simp add: answers_page_def paged_search_def search_server_def search_call_def
      search_params_def is_page_def)

text \<open>
  C7. Let the route table resolve \<^verbatim>\<open>search\<close> to a leaf that \<^verbatim>\<open>new URL\<close> accepts, and
  let the network answer the search call at every offset \<open>n\<close>, in every state, with
  the total 2500 and the rows of \<open>data\<close> from \<open>n\<close> on, at most 1000 of them, where
  \<open>data\<close> has 2500 rows. Then \<^verbatim>\<open>fetchAll\<close> returns \<open>data\<close>, in its order, and has
  issued exactly three calls, with the offsets 0, 1000 and 2000 in this order and
  the limit 1000 each; it opens no window.
\<close>

theorem fetchAll_three_pages:
  assumes route: "follow (links c) [''search''] = Some (JObj leaf)"
      "map_of leaf ''method'' = Some verb" "map_of leaf ''url'' = Some u" "h_url_ok h u"
    and len: "length data = 2500"
    and srv: "\<forall>n. answers_page h net (search_call c u verb n) 2500 (take 1000 (drop n data))"
  shows "\<exists>w'. fetchAll h net c w = Some (Inr data, w')
           \<and> fetched w' = fetched w @ [search_call c u verb 0, search_call c u verb 1000,
                                        search_call c u verb 2000]
           \<and> opened w' = opened w"
proof -
  note round = search_round_route [OF route]
  from srv have p0: "answers_page h net (search_call c u verb 0) 2500 (take 1000 (drop 0 data))"
    by blast
  from srv have p1: "answers_page h net (search_call c u verb 1000) 2500 (take 1000 (drop 1000 data))"
    by blast
  from srv have p2: "answers_page h net (search_call c u verb 2000) 2500 (take 1000 (drop 2000 data))"
    by blast
  define a1 where "a1 = take 1000 data"
  define a2 where "a2 = a1 @ take 1000 (drop 1000 data)"
  define a3 where "a3 = a2 @ take 1000 (drop 2000 data)"
  have l1: "length a1 = 1000" by (simp add: a1_def len)
  have l2: "length a2 = 2000" by (simp add: a2_def l1 len)
  have l3: "length a3 = 2500" by (simp add: a3_def l2 len)
  have "a2 = take 2000 data"
    using take_add [of 1000 1000 data] by (simp add: a2_def a1_def)
  then have "a3 = take 3000 data"
    using take_add [of 2000 1000 data] by (simp add: a3_def)
  then have a3: "a3 = data" by (simp add: len)
  obtain sr1 na where f1: "search_round h net c 0 w = (Inr sr1, w\<lparr>nst := na, fetched := fetched w @ [search_call c u verb 0]\<rparr>)"
      and g1: "is_page h sr1 2500 a1"
    using do_fetch_answers [OF p0, of w] by (auto simp: round a1_def)
  define w1 where "w1 = w\<lparr>nst := na, fetched := fetched w @ [search_call c u verb 0]\<rparr>"
  obtain sr2 nb where f2: "search_round h net c 1000 w1 = (Inr sr2, w1\<lparr>nst := nb, fetched := fetched w1 @ [search_call c u verb 1000]\<rparr>)"
      and g2: "is_page h sr2 2500 (take 1000 (drop 1000 data))"
    using do_fetch_answers [OF p1, of w1] by (auto simp: round)
  define w2 where "w2 = w1\<lparr>nst := nb, fetched := fetched w1 @ [search_call c u verb 1000]\<rparr>"
  obtain sr3 nc where f3: "search_round h net c 2000 w2 = (Inr sr3, w2\<lparr>nst := nc, fetched := fetched w2 @ [search_call c u verb 2000]\<rparr>)"
      and g3: "is_page h sr3 2500 (take 1000 (drop 2000 data))"
    using do_fetch_answers [OF p2, of w2] by (auto simp: round)
  define w3 where "w3 = w2\<lparr>nst := nc, fetched := fetched w2 @ [search_call c u verb 2000]\<rparr>"
  have s1: "fetchAll h net c w = fetchAll_loop h net c a1 (JNum 2500) w1"
    unfolding fetchAll_def
    using fetchAll_loop_step [of JNull h "[]" net c w sr1 w1 2500 a1] f1 g1
    by (simp add: w1_def)
  have s2: "fetchAll_loop h net c a1 (JNum 2500) w1 = fetchAll_loop h net c a2 (JNum 2500) w2"
    using fetchAll_loop_step [of "JNum 2500" h a1 net c w1 sr2 w2 2500 "take 1000 (drop 1000 data)"] f2 g2
    by (simp add: l1 w2_def a2_def)
  have s3: "fetchAll_loop h net c a2 (JNum 2500) w2 = fetchAll_loop h net c a3 (JNum 2500) w3"
    using fetchAll_loop_step [of "JNum 2500" h a2 net c w2 sr3 w3 2500 "take 1000 (drop 2000 data)"] f3 g3
    by (simp add: l2 w3_def a3_def)
  have s4: "fetchAll_loop h net c a3 (JNum 2500) w3 = Some (Inr a3, w3)"
    by (rule fetchAll_loop_stop) (simp_all add: l3)
  have "fetchAll h net c w = Some (Inr data, w3)"
    using s1 s2 s3 s4 a3 by simp
  moreover have "fetched w3 = fetched w @ [search_call c u verb 0, search_call c u verb 1000,
                                        search_call c u verb 2000]"
    by (simp add: w3_def w2_def w1_def)
  moreover have "opened w3 = opened w"
    by (simp add: w3_def w2_def w1_def)
  ultimately show ?thesis by blast
qed

theorem fetchAll_three_pages_witness:
  "follow (links sample_client) [''search'']
     = Some (JObj [(''method'', JStr ''GET''), (''url'', JStr ''https://hypothes.is/api/search'')])
   \<and> h_url_ok es_host (JStr ''https://hypothes.is/api/search'')
   \<and> length (numbered 2500) = 2500
   \<and> (\<forall>n. answers_page es_host (paged_search (numbered 2500) 1000)
              (search_call sample_client (JStr ''https://hypothes.is/api/search'') (JStr ''GET'') n)
              2500 (take 1000 (drop n (numbered 2500))))
   \<and> (\<exists>w'. fetchAll es_host (paged_search (numbered 2500) 1000) sample_client empty_world
              = Some (Inr (numbered 2500), w')
          \<and> fetched w' =
              [search_call sample_client (JStr ''https://hypothes.is/api/search'') (JStr ''GET'') 0,
               search_call sample_client (JStr ''https://hypothes.is/api/search'') (JStr ''GET'') 1000,
               search_call sample_client (JStr ''https://hypothes.is/api/search'') (JStr ''GET'') 2000])"
proof -
  have len: "length (numbered 2500) = 2500" by (simp add: numbered_def)
  have srv: "\<forall>n. answers_page es_host (paged_search (numbered 2500) 1000)
              (search_call sample_client (JStr ''https://hypothes.is/api/search'') (JStr ''GET'') n)
              2500 (take 1000 (drop n (numbered 2500)))"
    using paged_answers [of es_host "numbered 2500" 1000] by (simp add: len)
  from fetchAll_three_pages [OF sample_route _ _ sample_url_ok len srv, of empty_world]
  have "\<exists>w'. fetchAll es_host (paged_search (numbered 2500) 1000) sample_client empty_world
              = Some (Inr (numbered 2500), w')
          \<and> fetched w' =
              [search_call sample_client (JStr ''https://hypothes.is/api/search'') (JStr ''GET'') 0,
               search_call sample_client (JStr ''https://hypothes.is/api/search'') (JStr ''GET'') 1000,
               search_call sample_client (JStr ''https://hypothes.is/api/search'') (JStr ''GET'') 2000]"
    by (auto simp add: empty_world_def)
  with sample_route sample_url_ok len srv show ?thesis by blast
qed

text \<open>
  C8. Let the route table resolve \<^verbatim>\<open>search\<close> as before, and let the first search
  response report the total 0, with no rows. Then \<^verbatim>\<open>fetchAll\<close> returns the empty
  array and has issued exactly one call, the one at offset 0.
\<close>

theorem fetchAll_empty:
  assumes route: "follow (links c) [''search''] = Some (JObj leaf)"
      "map_of leaf ''method'' = Some verb" "map_of leaf ''url'' = Some u" "h_url_ok h u"
    and first: "net (nst w) (search_call c u verb 0) = (Inr sr, ns')"
    and page: "is_page h sr 0 []"
  shows "fetchAll h net c w =
     Some (Inr [], w\<lparr>nst := ns', fetched := fetched w @ [search_call c u verb 0]\<rparr>)"
proof -
  have "search_round h net c 0 w = (Inr sr, w\<lparr>nst := ns', fetched := fetched w @ [search_call c u verb 0]\<rparr>)"
    using first by (simp add: search_round_route [OF route] do_fetch_def)
  then have "fetchAll h net c w
      = fetchAll_loop h net c [] (JNum 0) (w\<lparr>nst := ns', fetched := fetched w @ [search_call c u verb 0]\<rparr>)"
    unfolding fetchAll_def
    using fetchAll_loop_step [of JNull h "[]" net c w sr _ 0 "[]"] page by simp
  also have "\<dots> = Some (Inr [], w\<lparr>nst := ns', fetched := fetched w @ [search_call c u verb 0]\<rparr>)"
    by (rule fetchAll_loop_stop) simp_all
  finally show ?thesis .
qed

theorem fetchAll_empty_witness:
  "follow (links sample_client) [''search'']
     = Some (JObj [(''method'', JStr ''GET''), (''url'', JStr ''https://hypothes.is/api/search'')])
   \<and> h_url_ok es_host (JStr ''https://hypothes.is/api/search'')
   \<and> paged_search [] 1000 (nst empty_world)
        (search_call sample_client (JStr ''https://hypothes.is/api/search'') (JStr ''GET'') 0)
      = (Inr (JObj [(''total'', JNum 0), (''rows'', JArr [])]), ())
   \<and> is_page es_host (JObj [(''total'', JNum 0), (''rows'', JArr [])]) 0 []
   \<and> fetchAll es_host (paged_search [] 1000) sample_client empty_world
      = Some (Inr [],
              \<lparr>nst = (),
               fetched = [search_call sample_client (JStr ''https://hypothes.is/api/search'')
                            (JStr ''GET'') 0],
               opened = []\<rparr>)"
proof -
  have first: "paged_search [] 1000 (nst empty_world)
        (search_call sample_client (JStr ''https://hypothes.is/api/search'') (JStr ''GET'') 0)
      = (Inr (JObj [(''total'', JNum 0), (''rows'', JArr [])]), ())"
    by (simp add: paged_search_def search_server_def search_call_def search_params_def)
  have page: "is_page es_host (JObj [(''total'', JNum 0), (''rows'', JArr [])]) 0 []"
    by (simp add: is_page_def)
  have m: "map_of [(''method'', JStr ''GET''), (''url'', JStr ''https://hypothes.is/api/search'')]
             ''method'' = Some (JStr ''GET'')"
    by simp
  have u: "map_of [(''method'', JStr ''GET''), (''url'', JStr ''https://hypothes.is/api/search'')]
             ''url'' = Some (JStr ''https://hypothes.is/api/search'')"
    by simp
  from fetchAll_empty [where net = "paged_search [] 1000" and w = empty_world,
      OF sample_route m u sample_url_ok first page]
  have "fetchAll es_host (paged_search [] 1000) sample_client empty_world
      = Some (Inr [],
              \<lparr>nst = (),
               fetched = [search_call sample_client (JStr ''https://hypothes.is/api/search'')
                            (JStr ''GET'') 0],
               opened = []\<rparr>)"
    by (simp add: empty_world_def)
  with sample_route sample_url_ok first page show ?thesis by blast
qed

lemma productive_pageD:
  assumes "productive_page h B n sr"
  obtains t xs where "is_page h sr t xs" "t \<le> B" "int n < t \<longrightarrow> xs \<noteq> []"
proof (cases "js_get h sr ''total''")
  case (Inl e)
  with assms show ?thesis by (simp add: productive_page_def)
next
  case tot: (Inr v)
  show ?thesis
  proof (cases v)
    case (JNum t)
    show ?thesis
    proof (cases "js_get h sr ''rows''")
      case (Inl e)
      with assms tot JNum show ?thesis by (simp add: productive_page_def)
    next
      case rows: (Inr r)
      show ?thesis
      proof (cases r)
        case (JArr xs)
        with assms tot JNum rows have "t \<le> B" and "int n < t \<longrightarrow> xs \<noteq> []"
          by (simp_all add: productive_page_def)
        moreover have "is_page h sr t xs"
          using tot JNum rows JArr by (simp add: is_page_def)
        ultimately show ?thesis using that by blast
      qed (use assms tot JNum rows in \<open>simp_all add: productive_page_def\<close>)
    qed
  qed (use assms tot in \<open>simp_all add: productive_page_def\<close>)
qed

lemma productive_round:
  assumes "productive h net c B" and "search_round h net c n w = (Inr sr, w')"
  shows "productive_page h B n sr"
proof -
  from assms(1) have "case fst (search_round h net c n w) of
      Inl e \<Rightarrow> True | Inr sr \<Rightarrow> productive_page h B n sr"
    unfolding productive_def by blast
  with assms(2) show ?thesis by simp
qed

lemma fetchAll_loop_terminates:
  assumes prod: "productive h net c B"
  shows "t \<le> B \<Longrightarrow> \<exists>r. fetchAll_loop h net c anns (JNum t) w = Some r"
proof (induction "nat (B - int (length anns))" arbitrary: anns t w rule: less_induct)
  case less
  show ?case
  proof (cases "len_lt h (length anns) (JNum t)")
    case False
    then show ?thesis by (simp add: fetchAll_loop_stop)
  next
    case True
    then have below: "int (length anns) < t" by simp
    obtain r w' where round: "search_round h net c (length anns) w = (r, w')"
      by (cases "search_round h net c (length anns) w")
    show ?thesis
    proof (cases r)
      case (Inl e)
      with round True show ?thesis by (simp add: fetchAll_loop_error)
    next
      case (Inr sr)
      with round have round': "search_round h net c (length anns) w = (Inr sr, w')" by simp
      from productive_round [OF prod round']
      obtain t' xs where page: "is_page h sr t' xs" and bound: "t' \<le> B"
          and rows: "int (length anns) < t' \<longrightarrow> xs \<noteq> []"
        by (rule productive_pageD)
      have step: "fetchAll_loop h net c anns (JNum t) w = fetchAll_loop h net c (anns @ xs) (JNum t') w'"
        using True round' page by (simp add: fetchAll_loop_step)
      show ?thesis
      proof (cases "xs = []")
        case True
        with rows have "\<not> len_lt h (length (anns @ xs)) (JNum t')" by simp
        then show ?thesis using step by (simp add: fetchAll_loop_stop)
      next
        case False
        then have "length anns < length (anns @ xs)" by simp
        with below less.prems have "nat (B - int (length (anns @ xs))) < nat (B - int (length anns))"
          by simp
        from less.hyps [OF this bound] step show ?thesis by simp
      qed
    qed
  qed
qed

lemma fetchAll_terminates:
  assumes prod: "productive h net c B"
  shows "\<exists>r. fetchAll h net c w = Some r"
proof -
  obtain r w' where round: "search_round h net c (length ([]::jsval list)) w = (r, w')"
    by (cases "search_round h net c (length ([]::jsval list)) w")
  show ?thesis
  proof (cases r)
    case (Inl e)
    with round show ?thesis
      unfolding fetchAll_def by (simp add: fetchAll_loop_error [of JNull])
  next
    case (Inr sr)
    with round have round': "search_round h net c (length ([]::jsval list)) w = (Inr sr, w')" by simp
    then have "productive_page h B 0 sr"
      using productive_round [OF prod, of 0 w sr w'] by simp
    then obtain t xs where page: "is_page h sr t xs" and bound: "t \<le> B"
      by (rule productive_pageD)
    have "fetchAll h net c w = fetchAll_loop h net c ([] @ xs) (JNum t) w'"
      unfolding fetchAll_def using round' page by (intro fetchAll_loop_step) simp_all
    with fetchAll_loop_terminates [OF prod bound] show ?thesis by simp
  qed
qed

lemma fetchAll_loop_diverges:
  assumes step: "\<And>anns tot w. I anns tot \<Longrightarrow>
      (tot = JNull \<or> len_lt h (length anns) tot)
      \<and> (\<exists>sr w' t xs. search_round h net c (length anns) w = (Inr sr, w')
            \<and> is_page h sr t xs \<and> I (anns @ xs) (JNum t))"
    and start: "I anns tot"
  shows "fetchAll_loop h net c anns tot w = None"
proof -
  have "h = h \<and> net = net \<and> c = c \<longrightarrow> \<not> I anns tot"
    if eq: "fetchAll_loop h net c anns tot w = Some y" for y
  proof (rule fetchAll_loop.raw_induct
      [where P = "\<lambda>h' net' c' a t w y. h' = h \<and> net' = net \<and> c' = c \<longrightarrow> \<not> I a t", OF _ eq],
      goal_cases)
    case (1 f h' net' c' a t w y)
    show ?case
    proof (intro impI notI, elim conjE)
      assume eqs: "h' = h" "net' = net" "c' = c" and inv: "I a t"
      from step [OF inv, of w] obtain sr w' t' xs
        where cont: "t = JNull \<or> len_lt h (length a) t"
          and round: "search_round h net c (length a) w = (Inr sr, w')"
          and page: "is_page h sr t' xs" and inv': "I (a @ xs) (JNum t')"
        by blast
      from "1"(2) eqs cont round page have "f h net c (a @ xs) (JNum t') w' = Some y"
        by (simp add: search_round_def search_params_def is_page_def)
      from "1"(1) [OF this] inv' show False by simp
    qed
  qed
  then have "fetchAll_loop h net c anns tot w \<noteq> Some y" for y
    using start by blast
  then show ?thesis by (cases "fetchAll_loop h net c anns tot w") auto
qed

lemma fetchAll_loop_stuck:
  assumes "stuck_at h net c (length anns)" and "tot = JNull \<or> len_lt h (length anns) tot"
  shows "fetchAll_loop h net c anns tot w = None"
proof (rule fetchAll_loop_diverges [where I = "\<lambda>(a::jsval list) t. length a = length anns \<and> (t = JNull \<or> len_lt h (length anns) t)"])
  fix a :: "jsval list" and t and w :: "'a world"
  assume inv: "length a = length anns \<and> (t = JNull \<or> len_lt h (length anns) t)"
  obtain r w' where round: "search_round h net c (length anns) w = (r, w')"
    by (cases "search_round h net c (length anns) w")
  from assms(1) have "case fst (search_round h net c (length anns) w) of
      Inl e \<Rightarrow> False | Inr sr \<Rightarrow> (\<exists>t. is_page h sr t [] \<and> int (length anns) < t)"
    unfolding stuck_at_def by blast
  with round obtain sr t' where "r = Inr sr" "is_page h sr t' []" "int (length anns) < t'"
    by (cases r) auto
  with round inv
  show "(t = JNull \<or> len_lt h (length a) t)
      \<and> (\<exists>sr w' t' xs. search_round h net c (length a) w = (Inr sr, w')
            \<and> is_page h sr t' xs
            \<and> (length (a @ xs) = length anns \<and> (JNum t' = JNull \<or> len_lt h (length anns) (JNum t'))))"
    by auto
next
  show "length anns = length anns \<and> (tot = JNull \<or> len_lt h (length anns) tot)"
    using assms(2) by simp
qed

lemma paged_productive:
  "productive es_host (paged_search (numbered 3) 2) sample_client 3"
  by (simp add: productive_def paged_search_def sample_round productive_page_def numbered_def)

lemma stuck_search_stuck: "stuck_at es_host stuck_search sample_client 0"
  by (simp add: stuck_at_def stuck_search_def sample_round is_page_def)

text \<open>
  C9, as the source has it. If the totals the server reports are bounded by a number
  \<open>B\<close>, and every search response either fails or carries at least one row whenever
  the offset of its request is below the total it reports, then \<^verbatim>\<open>fetchAll\<close> settles:
  it returns or rejects. Conversely, when the loop is about to issue a request at
  \<open>n\<close> accumulated rows, and the server answers every request at that offset with no
  rows and a total above \<open>n\<close>, the loop never ends: \<^verbatim>\<open>anns\<close> does not grow, so each
  round is the same request again.
\<close>

theorem fetchAll_termination:
  "(productive h net c B \<longrightarrow> (\<exists>r. fetchAll h net c w = Some r))
   \<and> (stuck_at h net c (length anns) \<and> (tot = JNull \<or> len_lt h (length anns) tot)
        \<longrightarrow> fetchAll_loop h net c anns tot w = None)"
proof (intro conjI impI)
  assume "productive h net c B"
  then show "\<exists>r. fetchAll h net c w = Some r"
    by (rule fetchAll_terminates)
next
  assume "stuck_at h net c (length anns) \<and> (tot = JNull \<or> len_lt h (length anns) tot)"
  then have a: "stuck_at h net c (length anns)"
    and b: "tot = JNull \<or> len_lt h (length anns) tot"
    by simp_all
  from fetchAll_loop_stuck [OF a b] show "fetchAll_loop h net c anns tot w = None" .
qed

theorem fetchAll_termination_witness:
  "productive es_host (paged_search (numbered 3) 2) sample_client 3
   \<and> (\<exists>r. fetchAll es_host (paged_search (numbered 3) 2) sample_client empty_world = Some r)
   \<and> stuck_at es_host stuck_search sample_client 0
   \<and> fetchAll_loop es_host stuck_search sample_client [] JNull empty_world = None"
proof -
  have "\<exists>r. fetchAll es_host (paged_search (numbered 3) 2) sample_client empty_world = Some r"
    using fetchAll_termination [of es_host "paged_search (numbered 3) 2" sample_client 3 empty_world]
      paged_productive by blast
  moreover have "fetchAll_loop es_host stuck_search sample_client [] JNull empty_world = None"
    using fetchAll_termination [of es_host stuck_search sample_client _ empty_world "[]" JNull]
      stuck_search_stuck by simp
  ultimately show ?thesis using paged_productive stuck_search_stuck by blast
qed

text \<open>
  C9, as stated without the bound, fails: every response of \<open>growing_search\<close>
  carries one row, and its total stays above the rows accumulated, so \<^verbatim>\<open>fetchAll\<close>
  never returns.
\<close>

theorem fetchAll_growing_total_diverges:
  "fetchAll es_host growing_search sample_client empty_world = None"
  unfolding fetchAll_def
proof (rule fetchAll_loop_diverges
    [where I = "\<lambda>(a::jsval list) t. t = JNull \<or> t = JNum (int (length a) + 1)"])
  fix a :: "jsval list" and t and w :: "unit world"
  assume "t = JNull \<or> t = JNum (int (length a) + 1)"
  then have "t = JNull \<or> len_lt es_host (length a) t" by auto
  moreover have "search_round es_host growing_search sample_client (length a) w
      = (Inr (JObj [(''total'', JNum (int (length a) + 2)), (''rows'', JArr [JNum (int (length a))])]),
         w\<lparr>nst := (), fetched := fetched w @
             [search_call sample_client (JStr ''https://hypothes.is/api/search'') (JStr ''GET'') (length a)]\<rparr>)"
    by (simp add: growing_search_def sample_round)
  moreover have "is_page es_host
      (JObj [(''total'', JNum (int (length a) + 2)), (''rows'', JArr [JNum (int (length a))])])
      (int (length a) + 2) [JNum (int (length a))]"
    by (simp add: is_page_def)
  moreover have "JNum (int (length a) + 2) = JNum (int (length (a @ [JNum (int (length a))])) + 1)"
    by simp
  ultimately show "(t = JNull \<or> len_lt es_host (length a) t)
      \<and> (\<exists>sr w' t' xs. search_round es_host growing_search sample_client (length a) w = (Inr sr, w')
            \<and> is_page es_host sr t' xs
            \<and> (JNum t' = JNull \<or> JNum t' = JNum (int (length (a @ xs)) + 1)))"
    by blast
next
  show "JNull = JNull \<or> JNull = JNum (int (length ([]::jsval list)) + 1)" by simp
qed

end
